theory Spec2Isabelle
  imports Complex_Main "HOL-Library.Word"
begin

section \<open>ANODI on binary images: the pattern encoder\<close>

text \<open>
  The module \<^verbatim>\<open>binary_anodi.py\<close> is written against numpy, scipy and scikit-learn.
  Arrays are modelled as lists: a 1-D array is a list, a 2-D array a list of rows of
  equal length. A binary image is a boolean 2-D array, as \<^verbatim>\<open>otsu\<close> returns it
  (\<^verbatim>\<open>img > threshold_otsu(img)\<close>). Integer arrays built by \<^verbatim>\<open>np.arange\<close> have
  numpy's default integer type, the signed 64-bit integer: \<open>64 word\<close>, read with
  \<open>sint\<close>.
\<close>

type_synonym int64 = "64 word"
type_synonym image = "bool list list"

text \<open>\<^verbatim>\<open>np.arange(m - 1, -1, -1)\<close>: the integers \<open>m - 1, \<dots>, 0\<close>.\<close>

definition arange_down :: "nat \<Rightarrow> nat list" where
  "arange_down m = rev [0..<m]"

text \<open>
  \<^verbatim>\<open>1 << np.arange(m - 1, -1, -1)\<close>: the element-wise left shift of the 64-bit
  integer 1. The shift works on 64 bits: bit 63 is the sign bit, and a shift by 64 or
  more leaves 0, as numpy defines it (older builds leave such a shift to the
  hardware; nothing below depends on it except the pair of colliding rows exhibited
  for 65 bits and more).
\<close>

definition weights :: "nat \<Rightarrow> int64 list" where
  "weights m = map (\<lambda>i. push_bit i (1 :: int64)) (arange_down m)"

text \<open>
  \<^verbatim>\<open>x.dot(w)\<close> for a boolean row \<open>x\<close> and a 64-bit integer vector \<open>w\<close>: the booleans
  are cast to 0 and 1, the products are summed in 64-bit arithmetic.
\<close>

definition dot :: "bool list \<Rightarrow> int64 list \<Rightarrow> int64" where
  "dot x w = sum_list (map2 (\<lambda>b v. of_bool b * v) x w)"

text \<open>
  \<^verbatim>\<open>bin2dec(x)\<close> on a 1-D array: \<^verbatim>\<open>x.dot(1 << np.arange(x.shape[-1] - 1, -1, -1))\<close>.
  On a 2-D array the same product is taken row by row (\<open>bin2dec_rows\<close>).
\<close>

definition bin2dec :: "bool list \<Rightarrow> int64" where
  "bin2dec x = dot x (weights (length x))"

definition bin2dec_rows :: "bool list list \<Rightarrow> int64 list" where
  "bin2dec_rows xs = map bin2dec xs"

text \<open>
  The value of a bit sequence read as a binary number, first element most significant,
  in unbounded arithmetic: the docstring's \<^verbatim>\<open>001 -> 1, 100 -> 4, 011 -> 3\<close>.
\<close>

fun be_val :: "bool list \<Rightarrow> nat" where
  "be_val [] = 0"
| "be_val (b # bs) = of_bool b * 2 ^ length bs + be_val bs"

text \<open>The \<open>k \<times> k\<close> binary patches, and their row-major flattening \<open>concat\<close>.\<close>

definition patches_of_size :: "nat \<Rightarrow> bool list list set" where
  "patches_of_size k = {p. length p = k \<and> set p \<subseteq> {r. length r = k}}"

definition pattern_id :: "bool list list \<Rightarrow> int" where
  "pattern_id p = sint (bin2dec (concat p))"

section \<open>The histogram builder\<close>

text \<open>
  Python raises exceptions; the model returns them as values. None of them is
  raised by the module itself: they come from the library routines it calls.
  \<^item> \<open>InvalidPatchSize\<close>: the \<^verbatim>\<open>ValueError\<close> of \<^verbatim>\<open>extract_patches_2d\<close>, "Height
    (Width) of the patch should be less than the height (width) of the image";
  \<^item> \<open>EmptyPatch\<close>: the \<^verbatim>\<open>ValueError\<close> of the reshape in \<^verbatim>\<open>extract_patches_2d\<close>
    when the patch has no pixel;
  \<^item> \<open>MinlengthOverflow\<close>: the \<^verbatim>\<open>OverflowError\<close> of \<^verbatim>\<open>np.bincount\<close> when
    \<^verbatim>\<open>minlength\<close> does not fit the signed 64-bit index type;
  \<^item> \<open>NegativeValue\<close>: the \<^verbatim>\<open>ValueError\<close> of \<^verbatim>\<open>np.bincount\<close> on a negative
    element;
  \<^item> \<open>ShapeMismatch\<close>: the \<^verbatim>\<open>ValueError\<close> of numpy when two operands cannot be
    broadcast together, and of \<^verbatim>\<open>entropy\<close>, "qk and pk must have same length";
  \<^item> \<open>NotTwoDimensional\<close>: the \<^verbatim>\<open>ValueError\<close> of \<^verbatim>\<open>pdist\<close>, "A 2-dimensional
    array must be passed".
\<close>

datatype error =
    InvalidPatchSize
  | EmptyPatch
  | MinlengthOverflow
  | NegativeValue
  | ShapeMismatch
  | NotTwoDimensional

text \<open>\<^verbatim>\<open>image.shape[:2]\<close> of a 2-D array held as a list of rows.\<close>

definition height :: "'a list list \<Rightarrow> nat" where
  "height img = length img"

definition width :: "'a list list \<Rightarrow> nat" where
  "width img = (case img of [] \<Rightarrow> 0 | r # _ \<Rightarrow> length r)"

text \<open>The \<open>p_h \<times> p_w\<close> window whose top-left corner is at row \<open>i\<close>, column \<open>j\<close>.\<close>

definition window :: "'a list list \<Rightarrow> nat \<Rightarrow> nat \<Rightarrow> nat \<Rightarrow> nat \<Rightarrow> 'a list list" where
  "window img p_h p_w i j = map (\<lambda>r. take p_w (drop j r)) (take p_h (drop i img))"

text \<open>
  \<^verbatim>\<open>extract_patches_2d(image, (p_h, p_w))\<close> of scikit-learn, without \<^verbatim>\<open>max_patches\<close>:
  the two size checks come first; then every window at stride 1, the top-left corners
  in row-major order, \<open>(i_h - p_h + 1) * (i_w - p_w + 1)\<close> of them. With \<open>p_h = 0\<close> or
  \<open>p_w = 0\<close> the final \<^verbatim>\<open>reshape(-1, p_h, p_w, n_colors)\<close> of an array without
  elements fails.
\<close>

definition extract_patches_2d :: "'a list list \<Rightarrow> nat \<times> nat \<Rightarrow> error + 'a list list list" where
  "extract_patches_2d img patch_size =
     (let i_h = height img; i_w = width img; p_h = fst patch_size; p_w = snd patch_size
      in if p_h > i_h then Inl InvalidPatchSize
         else if p_w > i_w then Inl InvalidPatchSize
         else if p_h = 0 \<or> p_w = 0 then Inl EmptyPatch
         else Inr (concat (map (\<lambda>i. map (\<lambda>j. window img p_h p_w i j) [0..<i_w - p_w + 1])
                               [0..<i_h - p_h + 1])))"

text \<open>
  \<^verbatim>\<open>np.bincount(x, minlength=n)\<close> on a 64-bit integer array: \<open>n\<close> is a Python integer
  and must fit the index type; no element may be negative; the result has
  \<open>max (max(x) + 1) n\<close> entries, entry \<open>i\<close> the number of occurrences of \<open>i\<close> in \<open>x\<close>.
  Memory is taken as unbounded.
\<close>

definition bincount :: "int64 list \<Rightarrow> nat \<Rightarrow> error + nat list" where
  "bincount x minlength =
     (if 2 ^ 63 \<le> minlength then Inl MinlengthOverflow
      else if x = [] then Inr (replicate minlength 0)
      else if \<exists>v \<in> set x. sint v < 0 then Inl NegativeValue
      else let ids = map (\<lambda>v. nat (sint v)) x;
               mx = foldr max ids 0;
               ans_size = max (mx + 1) minlength
           in Inr (map (\<lambda>i. count_list ids i) [0..<ans_size]))"

text \<open>
  \<^verbatim>\<open>multipoint_histogram(img, patch_size)\<close>: the patches, each flattened in row-major
  order (\<^verbatim>\<open>reshape(patches.shape[0], -1)\<close>), encoded by \<^verbatim>\<open>bin2dec\<close>, and counted with
  \<^verbatim>\<open>minlength = 2**(patch_size**2)\<close>. \<^verbatim>\<open>astype(np.int)\<close> leaves 64-bit integers as they
  are.
\<close>

definition multipoint_histogram :: "image \<Rightarrow> nat \<Rightarrow> error + nat list" where
  "multipoint_histogram img patch_size =
     (case extract_patches_2d img (patch_size, patch_size) of
        Inl e \<Rightarrow> Inl e
      | Inr patches \<Rightarrow>
          (let patches1 = map concat patches;
               patches2 = bin2dec_rows patches1
           in bincount patches2 (2 ^ (patch_size ^ 2))))"

text \<open>A 2-D array: every row has the same length \<open>W\<close>.\<close>

definition rect :: "'a list list \<Rightarrow> nat \<Rightarrow> nat \<Rightarrow> bool" where
  "rect img H W \<longleftrightarrow> length img = H \<and> (\<forall>r \<in> set img. length r = W)"

section \<open>The divergence engine\<close>

text \<open>
  Floating-point numbers (\<^verbatim>\<open>np.float\<close>, 64 bits) are modelled without rounding: a
  finite value is an exact real, and the three special values of IEEE arithmetic are
  kept, since numpy does not raise on a division by zero but returns \<^verbatim>\<open>nan\<close> or
  \<^verbatim>\<open>inf\<close> (with a warning). Overflow to infinity and the sign of zero are not
  modelled. What is proved of a finite result below is therefore its value before
  rounding; which values are \<^verbatim>\<open>nan\<close>, which calls fail and which results are equal by
  commutativity do not depend on rounding.
\<close>

datatype float64 = Fin real | PInf | NInf | NaN

fun fadd :: "float64 \<Rightarrow> float64 \<Rightarrow> float64" where
  "fadd NaN _ = NaN"
| "fadd _ NaN = NaN"
| "fadd (Fin a) (Fin b) = Fin (a + b)"
| "fadd PInf NInf = NaN"
| "fadd NInf PInf = NaN"
| "fadd PInf _ = PInf"
| "fadd _ PInf = PInf"
| "fadd NInf _ = NInf"
| "fadd _ NInf = NInf"

fun fneg :: "float64 \<Rightarrow> float64" where
  "fneg (Fin a) = Fin (- a)"
| "fneg PInf = NInf"
| "fneg NInf = PInf"
| "fneg NaN = NaN"

text \<open>An infinity times the finite value \<open>a\<close>: \<open>inf * 0\<close> is \<^verbatim>\<open>nan\<close>.\<close>

definition inf_times :: "float64 \<Rightarrow> real \<Rightarrow> float64" where
  "inf_times i a = (if a = 0 then NaN else if 0 < a then i else fneg i)"

fun fmul :: "float64 \<Rightarrow> float64 \<Rightarrow> float64" where
  "fmul NaN _ = NaN"
| "fmul _ NaN = NaN"
| "fmul (Fin a) (Fin b) = Fin (a * b)"
| "fmul (Fin a) i = inf_times i a"
| "fmul i (Fin b) = inf_times i b"
| "fmul PInf PInf = PInf"
| "fmul NInf NInf = PInf"
| "fmul PInf NInf = NInf"
| "fmul NInf PInf = NInf"

fun fdiv :: "float64 \<Rightarrow> float64 \<Rightarrow> float64" where
  "fdiv NaN _ = NaN"
| "fdiv _ NaN = NaN"
| "fdiv (Fin a) (Fin b) =
     (if b \<noteq> 0 then Fin (a / b)
      else if a = 0 then NaN else if 0 < a then PInf else NInf)"
| "fdiv (Fin a) _ = Fin 0"
| "fdiv i (Fin b) = (if 0 \<le> b then i else fneg i)"
| "fdiv _ _ = NaN"

text \<open>The natural logarithm: \<open>log 0 = -inf\<close>, \<^verbatim>\<open>nan\<close> below zero.\<close>

fun flog :: "float64 \<Rightarrow> float64" where
  "flog (Fin a) = (if 0 < a then Fin (ln a) else if a = 0 then NInf else NaN)"
| "flog PInf = PInf"
| "flog NInf = NaN"
| "flog NaN = NaN"

fun fpos :: "float64 \<Rightarrow> bool" where
  "fpos (Fin a) \<longleftrightarrow> 0 < a"
| "fpos PInf \<longleftrightarrow> True"
| "fpos _ \<longleftrightarrow> False"

fun fnonneg :: "float64 \<Rightarrow> bool" where
  "fnonneg (Fin a) \<longleftrightarrow> 0 \<le> a"
| "fnonneg PInf \<longleftrightarrow> True"
| "fnonneg _ \<longleftrightarrow> False"

text \<open>\<^verbatim>\<open>np.sum\<close> of a float array; the empty sum is 0.\<close>

primrec fsum :: "float64 list \<Rightarrow> float64" where
  "fsum [] = Fin 0"
| "fsum (x # xs) = fadd x (fsum xs)"

text \<open>
  \<^verbatim>\<open>scipy.special.rel_entr(x, y)\<close>: \<^verbatim>\<open>nan\<close> if an argument is; \<open>x * log (x / y)\<close> if
  both are positive; 0 if \<open>x = 0\<close> and \<open>y \<ge> 0\<close>; \<^verbatim>\<open>inf\<close> otherwise.
\<close>

definition rel_entr :: "float64 \<Rightarrow> float64 \<Rightarrow> float64" where
  "rel_entr x y =
     (if x = NaN \<or> y = NaN then NaN
      else if fpos x \<and> fpos y then fmul x (flog (fdiv x y))
      else if x = Fin 0 \<and> fnonneg y then Fin 0
      else PInf)"

text \<open>
  \<^verbatim>\<open>scipy.stats.entropy(pk, qk)\<close>: both arguments are divided by their own sums
  (\<^verbatim>\<open>1.0*pk / np.sum(pk)\<close>), the lengths must agree, and the result is the sum of
  \<^verbatim>\<open>rel_entr(pk, qk)\<close>.
\<close>

definition entropy :: "float64 list \<Rightarrow> float64 list \<Rightarrow> error + float64" where
  "entropy pk qk =
     (let pk1 = map (\<lambda>x. fdiv (fmul (Fin 1) x) (fsum pk)) pk
      in if length qk \<noteq> length pk then Inl ShapeMismatch
         else let qk1 = map (\<lambda>x. fdiv (fmul (Fin 1) x) (fsum qk)) qk;
                  vec = map2 rel_entr pk1 qk1
              in Inr (fsum vec))"

text \<open>
  The element-wise sum of two 1-D arrays under numpy's broadcasting: equal lengths, or
  one of the two of length 1.
\<close>

definition array_add :: "float64 list \<Rightarrow> float64 list \<Rightarrow> error + float64 list" where
  "array_add p q =
     (if length p = length q then Inr (map2 fadd p q)
      else if length p = 1 then Inr (map (fadd (hd p)) q)
      else if length q = 1 then Inr (map (\<lambda>x. fadd x (hd q)) p)
      else Inl ShapeMismatch)"

text \<open>
  \<^verbatim>\<open>p.astype(np.float) / np.sum(p)\<close> for an array of counts: the sum is taken in
  integers, the quotient in floating point. The integer sum is taken without the
  wrap-around of 64-bit addition: model and code agree on arrays of counts whose sum
  is below \<open>2 ^ 63\<close>, as the sum of a histogram of patches is.
\<close>

definition normalized :: "nat list \<Rightarrow> float64 list" where
  "normalized p = map (\<lambda>x. fdiv (Fin (real x)) (Fin (real (sum_list p)))) p"

text \<open>\<^verbatim>\<open>jsd(p, q)\<close>, on two arrays of counts.\<close>

definition jsd :: "nat list \<Rightarrow> nat list \<Rightarrow> error + float64" where
  "jsd p q =
     (let p1 = normalized p; q1 = normalized q
      in case array_add p1 q1 of
           Inl e \<Rightarrow> Inl e
         | Inr s \<Rightarrow>
             (let m = map (fmul (Fin (1/2))) s
              in case entropy p1 m of
                   Inl e \<Rightarrow> Inl e
                 | Inr e1 \<Rightarrow>
                     (case entropy q1 m of
                        Inl e \<Rightarrow> Inl e
                      | Inr e2 \<Rightarrow> Inr (fmul (Fin (1/2)) (fadd e1 e2)))))"

text \<open>
  The reference formula of the Jensen-Shannon divergence, on reals: each histogram
  divided by its own sum, the mixture \<open>m = 0.5 * (p + q)\<close>, the Kullback-Leibler
  divergence with the natural logarithm and \<open>0 * log (0 / x) = 0\<close>.
\<close>

definition normalized_ref :: "nat list \<Rightarrow> real list" where
  "normalized_ref p = map (\<lambda>x. real x / real (sum_list p)) p"

definition mixture_ref :: "real list \<Rightarrow> real list \<Rightarrow> real list" where
  "mixture_ref p q = map2 (\<lambda>a b. 0.5 * (a + b)) p q"

definition KL_ref :: "real list \<Rightarrow> real list \<Rightarrow> real" where
  "KL_ref p m = sum_list (map2 (\<lambda>a b. if a = 0 then 0 else a * ln (a / b)) p m)"

definition jsd_ref :: "nat list \<Rightarrow> nat list \<Rightarrow> real" where
  "jsd_ref p q =
     (let p1 = normalized_ref p; q1 = normalized_ref q; m = mixture_ref p1 q1
      in 0.5 * KL_ref p1 m + 0.5 * KL_ref q1 m)"

text \<open>
  A list of non-negative reals and a second list of the same length that holds, at
  each position, at least half of the first: the relation between a distribution and
  a mixture it takes part in.
\<close>

definition dominated :: "real list \<Rightarrow> real list \<Rightarrow> bool" where
  "dominated a m \<longleftrightarrow> length a = length m \<and> (\<forall>(x, y) \<in> set (zip a m). 0 \<le> x \<and> x \<le> 2 * y)"

section \<open>The scores\<close>

text \<open>A list comprehension over a call that may raise: the first error wins.\<close>

fun map_result :: "('a \<Rightarrow> error + 'b) \<Rightarrow> 'a list \<Rightarrow> error + 'b list" where
  "map_result f [] = Inr []"
| "map_result f (x # xs) =
     (case f x of
        Inl e \<Rightarrow> Inl e
      | Inr y \<Rightarrow> (case map_result f xs of Inl e \<Rightarrow> Inl e | Inr ys \<Rightarrow> Inr (y # ys)))"

text \<open>The pairs \<open>(X[i], X[j])\<close> with \<open>i < j\<close>, in the order of \<^verbatim>\<open>pdist\<close>'s two loops.\<close>

fun pairs :: "'a list \<Rightarrow> ('a \<times> 'a) list" where
  "pairs [] = []"
| "pairs (x # xs) = map (Pair x) xs @ pairs xs"

text \<open>
  \<^verbatim>\<open>scipy.spatial.distance.pdist(X, metric=f)\<close> with a callable metric: the rows must
  form a 2-D array (the empty list is the 1-D array of shape \<open>(0,)\<close>), and the result
  holds \<open>f\<close> on each pair of rows, \<open>m * (m - 1) / 2\<close> values for \<open>m\<close> rows.
\<close>

definition pdist :: "nat list list \<Rightarrow> (nat list \<Rightarrow> nat list \<Rightarrow> error + float64) \<Rightarrow> error + float64 list" where
  "pdist X metric =
     (if X = [] \<or> (\<exists>r \<in> set X. length r \<noteq> length (hd X)) then Inl NotTwoDimensional
      else map_result (\<lambda>(u, v). metric u v) (pairs X))"

text \<open>
  \<^verbatim>\<open>np.mean\<close> of a list of floats: the sum divided by the number of elements; on the
  empty list \<open>0 / 0\<close>, which is \<^verbatim>\<open>nan\<close> and a warning, not an exception.
\<close>

definition mean :: "float64 list \<Rightarrow> float64" where
  "mean xs = fdiv (fsum xs) (Fin (real (length xs)))"

text \<open>\<^verbatim>\<open>anodi(img0, imgs, patch_size)\<close>.\<close>

definition anodi :: "image \<Rightarrow> image list \<Rightarrow> nat \<Rightarrow> error + (float64 \<times> float64)" where
  "anodi img0 imgs patch_size =
     (case multipoint_histogram img0 patch_size of
        Inl e \<Rightarrow> Inl e
      | Inr hist0 \<Rightarrow>
     (case map_result (\<lambda>img. multipoint_histogram img patch_size) imgs of
        Inl e \<Rightarrow> Inl e
      | Inr hists \<Rightarrow>
     (case map_result (\<lambda>h. jsd hist0 h) hists of
        Inl e \<Rightarrow> Inl e
      | Inr ds \<Rightarrow>
     (let inconsistency = mean ds
      in case pdist hists jsd of
           Inl e \<Rightarrow> Inl e
         | Inr dm \<Rightarrow> (let diversity = mean dm in Inr (inconsistency, diversity))))))"

section \<open>Properties of the pattern encoder\<close>

lemma weights_Suc: "weights (Suc n) = push_bit n 1 # weights n"
  by (simp add: weights_def arange_down_def)

lemma bin2dec_Nil: "bin2dec [] = 0"
  by (simp add: bin2dec_def dot_def)

lemma bin2dec_Cons: "bin2dec (b # bs) = of_bool b * push_bit (length bs) 1 + bin2dec bs"
  by (simp add: bin2dec_def dot_def weights_Suc)

lemma bin2dec_be_val: "bin2dec xs = word_of_nat (be_val xs)"
  by (induction xs) (simp_all add: bin2dec_Nil bin2dec_Cons push_bit_eq_mult)

lemma be_val_less: "be_val xs < 2 ^ length xs"
  by (induction xs) auto

lemma sint_word_of_nat_small:
  assumes "n < 2 ^ 63"
  shows "sint (word_of_nat n :: 64 word) = int n"
proof -
  have "int n < 2 ^ 63"
    using assms by (metis of_nat_less_iff of_nat_numeral of_nat_power)
  then have stb: "signed_take_bit 63 (int n) = int n"
    by (intro signed_take_bit_int_eq_self) simp_all
  have "sint (word_of_int (int n) :: 64 word) = signed_take_bit (LENGTH(64) - 1) (int n)"
    by (rule sint_sbintrunc')
  also have "\<dots> = int n" using stb by simp
  finally show ?thesis by simp
qed

lemma sint_bin2dec_small:
  assumes "length xs \<le> 63"
  shows "sint (bin2dec xs) = int (be_val xs)"
proof -
  have "be_val xs < 2 ^ length xs" by (rule be_val_less)
  also have "(2::nat) ^ length xs \<le> 2 ^ 63"
    using assms by (intro power_increasing) simp_all
  finally have lt: "be_val xs < 2 ^ 63" .
  then show ?thesis
    unfolding bin2dec_be_val by (rule sint_word_of_nat_small)
qed

lemma be_val_append: "be_val (xs @ ys) = be_val xs * 2 ^ length ys + be_val ys"
  by (induction xs) (simp_all add: power_add algebra_simps)

lemma be_val_replicate_False: "be_val (replicate n False) = 0"
  by (induction n) simp_all

lemma be_val_inj:
  "length xs = length ys \<Longrightarrow> be_val xs = be_val ys \<Longrightarrow> xs = ys"
proof (induction xs ys rule: list_induct2)
  case Nil
  then show ?case by simp
next
  case (Cons x xs y ys)
  have lx: "be_val xs < 2 ^ length ys" using be_val_less [of xs] Cons.hyps by simp
  have ly: "be_val ys < 2 ^ length ys" by (rule be_val_less)
  from Cons.prems Cons.hyps
  have eq: "of_bool x * 2 ^ length ys + be_val xs = of_bool y * 2 ^ length ys + be_val ys"
    by simp
  have "x = y"
  proof (rule ccontr)
    assume "x \<noteq> y"
    then consider "x" "\<not> y" | "\<not> x" "y" by blast
    then show False using eq lx ly by cases simp_all
  qed
  with eq Cons.IH show ?case by simp
qed

lemma sint_first_bit_of_64: "sint (bin2dec (True # replicate 63 False)) = - (2 ^ 63)"
  by (simp add: bin2dec_be_val be_val_replicate_False)

lemma bin2dec_append_False: "bin2dec (replicate n False @ xs) = bin2dec xs"
  by (simp add: bin2dec_be_val be_val_append be_val_replicate_False)

lemma pow2_word64_zero:
  assumes "64 \<le> n"
  shows "(2::64 word) ^ n = 0"
proof -
  obtain m where n: "n = 64 + m"
    using assms le_Suc_ex by blast
  have z: "(2::64 word) ^ 64 = 0" by simp
  show "(2::64 word) ^ n = 0"
    unfolding n power_add z by (rule mult_zero_left)
qed

lemma bin2dec_high_bit_lost:
  assumes "64 \<le> n"
  shows "bin2dec (True # replicate n False) = 0"
  by (simp only: bin2dec_be_val be_val.simps be_val_replicate_False of_bool_eq_1_iff
     length_replicate pow2_word64_zero [OF assms] of_nat_power of_nat_numeral of_nat_mult of_nat_add
      of_nat_0 add_0_right mult_zero_right  of_bool_eq if_True)

lemma concat_patch_length:
  assumes "p \<in> patches_of_size k"
  shows "length (concat p) = k * k"
proof -
  have "map length p = replicate k k"
    using assms by (auto simp: patches_of_size_def map_replicate_const [symmetric] subset_iff)
  then show ?thesis by (simp add: length_concat sum_list_replicate)
qed

lemma finite_patches_of_size: "finite (patches_of_size k)"
proof -
  have "finite {r :: bool list. length r = k}"
    using finite_lists_length_eq [of "UNIV :: bool set" k] by simp
  then have "finite {p. set p \<subseteq> {r :: bool list. length r = k} \<and> length p = k}"
    by (rule finite_lists_length_eq)
  then show ?thesis
    by (simp add: patches_of_size_def conj_commute)
qed

lemma card_patches_of_size: "card (patches_of_size k) = 2 ^ (k * k)"
proof -
  have c: "card {r :: bool list. length r = k} = 2 ^ k"
    using card_lists_length_eq [of "UNIV :: bool set" k] by simp
  have f: "finite {r :: bool list. length r = k}"
    using finite_lists_length_eq [of "UNIV :: bool set" k] by simp
  have "card {p. set p \<subseteq> {r :: bool list. length r = k} \<and> length p = k} = (2 ^ k) ^ k"
    using card_lists_length_eq [OF f, of k] c by simp
  then show ?thesis
    by (simp add: patches_of_size_def conj_commute power_mult)
qed

lemma concat_inj_on_patches: "inj_on concat (patches_of_size k)"
proof (rule inj_onI)
  fix p q :: "bool list list"
  assume p: "p \<in> patches_of_size k" and q: "q \<in> patches_of_size k"
    and eq: "concat p = concat q"
  have "\<forall>(x, y) \<in> set (zip p q). length x = length y"
  proof (clarify)
    fix x y assume xy: "(x, y) \<in> set (zip p q)"
    have "x \<in> set p" using xy by (rule set_zip_leftD)
    moreover have "y \<in> set q" using xy by (rule set_zip_rightD)
    ultimately have "length x = k" "length y = k"
      using p q by (simp_all add: patches_of_size_def subset_iff)
    then show "length x = length y" by simp
  qed
  moreover have "length p = length q"
    using p q by (simp add: patches_of_size_def)
  ultimately show "p = q" using eq by (intro concat_injective) 
qed


lemma pattern_id_be_val:
  assumes "p \<in> patches_of_size k" "k * k \<le> 63"
  shows "pattern_id p = int (be_val (concat p))"
  unfolding pattern_id_def
  using assms by (intro sint_bin2dec_small) (simp add: concat_patch_length)

lemma pattern_id_inj_on:
  assumes "k * k \<le> 63"
  shows "inj_on pattern_id (patches_of_size k)"
proof (rule inj_onI)
  fix p q assume p: "p \<in> patches_of_size k" and q: "q \<in> patches_of_size k"
    and eq: "pattern_id p = pattern_id q"
  have "be_val (concat p) = be_val (concat q)"
    using eq pattern_id_be_val [OF p assms] pattern_id_be_val [OF q assms] by simp
  moreover have "length (concat p) = length (concat q)"
    using p q by (simp add: concat_patch_length)
  ultimately have "concat p = concat q" by (intro be_val_inj)
  then show "p = q"
    using concat_inj_on_patches p q by (auto dest: inj_onD)
qed

lemma pattern_id_range:
  assumes "p \<in> patches_of_size k" "k * k \<le> 63"
  shows "pattern_id p \<in> {0..<2 ^ (k * k)}"
proof -
  have "be_val (concat p) < 2 ^ (k * k)"
    using be_val_less [of "concat p"] assms(1) by (simp add: concat_patch_length)
  then have "int (be_val (concat p)) < 2 ^ (k * k)"
    by (metis of_nat_less_iff of_nat_numeral of_nat_power)
  then show ?thesis
    using pattern_id_be_val [OF assms] by simp
qed

text \<open>
  C9, as amended: for every patch size \<open>k\<close> with \<open>k * k \<le> 63\<close> (that is \<open>k \<le> 7\<close>), the
  pattern encoding, \<^verbatim>\<open>bin2dec\<close> on the row-major flattening of a \<open>k \<times> k\<close> binary patch,
  is a bijection from the \<open>2 ^ (k * k)\<close> binary patches onto the integers from 0 up to
  \<open>2 ^ (k * k) - 1\<close>, and the identifier is the value of the flattened sequence read
  with its first element as the most significant bit.
\<close>

theorem pattern_id_bijection:
  assumes "k * k \<le> 63"
  shows "bij_betw pattern_id (patches_of_size k) {0..<2 ^ (k * k)}
         \<and> (\<forall>p \<in> patches_of_size k. pattern_id p = int (be_val (concat p)))"
proof -
  have inj: "inj_on pattern_id (patches_of_size k)"
    using assms by (rule pattern_id_inj_on)
  have sub: "pattern_id ` patches_of_size k \<subseteq> {0..<2 ^ (k * k)}"
    using pattern_id_range assms by blast
  have "card (pattern_id ` patches_of_size k) = card (patches_of_size k)"
    using inj by (rule card_image)
  also have "\<dots> = 2 ^ (k * k)" by (rule card_patches_of_size)
  also have "\<dots> = card {0..<(2::int) ^ (k * k)}" by simp
  finally have "pattern_id ` patches_of_size k = {0..<2 ^ (k * k)}"
    using sub by (intro card_subset_eq) simp_all
  with inj have "bij_betw pattern_id (patches_of_size k) {0..<2 ^ (k * k)}"
    by (rule bij_betw_imageI)
  moreover have "\<forall>p \<in> patches_of_size k. pattern_id p = int (be_val (concat p))"
    using assms by (simp add: pattern_id_be_val)
  ultimately show ?thesis by simp
qed

theorem pattern_id_bijection_witness:
  "(2::nat) * 2 \<le> 63
   \<and> bij_betw pattern_id (patches_of_size 2) {0..<16}
   \<and> [[True, False], [True, True]] \<in> patches_of_size 2
   \<and> pattern_id [[True, False], [True, True]] = 11"
proof -
  have h: "(2::nat) * 2 \<le> 63" by simp
  have m: "[[True, False], [True, True]] \<in> patches_of_size 2"
    by (simp add: patches_of_size_def)
  show ?thesis
    using pattern_id_bijection [OF h] h m by auto
qed

text \<open>
  C9 as stated fails at \<open>k = 8\<close>: the \<open>8 \<times> 8\<close> patch whose only set pixel is the first
  one is encoded as \<open>1 << 63\<close>, the 64-bit integer \<open>- 2 ^ 63\<close>, which is not in
  \<open>[0, 2 ^ 64)\<close>.
\<close>

theorem pattern_id_bijection_counterexample:
  "(True # replicate 7 False) # replicate 7 (replicate 8 False) \<in> patches_of_size 8
   \<and> pattern_id ((True # replicate 7 False) # replicate 7 (replicate 8 False)) = - (2 ^ 63)
   \<and> \<not> bij_betw pattern_id (patches_of_size 8) {0..<2 ^ (8 * 8)}"
proof -
  let ?p = "(True # replicate 7 False) # replicate 7 (replicate 8 False)"
  have m: "?p \<in> patches_of_size 8"
    by (simp add: patches_of_size_def)
  have c: "concat ?p = True # replicate 63 False"
    by (simp add: replicate_add [symmetric] numeral_eq_Suc)
  have v: "pattern_id ?p = - (2 ^ 63)"
    unfolding pattern_id_def c by (rule sint_first_bit_of_64)
  have "\<not> bij_betw pattern_id (patches_of_size 8) {0..<2 ^ (8 * 8)}"
  proof
    assume "bij_betw pattern_id (patches_of_size 8) {0..<2 ^ (8 * 8)}"
    then have "pattern_id ` patches_of_size 8 = {0..<2 ^ (8 * 8)}"
      by (rule bij_betw_imp_surj_on)
    then have "pattern_id ?p \<in> {0..<2 ^ (8 * 8)}"
      using m by blast
    then show False unfolding v by simp
  qed
  with m v show ?thesis by simp
qed

text \<open>
  C10: the weights of \<^verbatim>\<open>bin2dec\<close> are 64-bit integers. For a row of at most 63 bits
  the identifier is the value of the row read as a binary number, in \<open>[0, 2 ^ m)\<close>.
  For every length \<open>m \<ge> 64\<close> (every patch size \<open>k \<ge> 8\<close>) some row has a negative
  identifier, and for every \<open>m \<ge> 65\<close> two different rows have the same identifier.
\<close>

theorem bin2dec_int64_range:
  "(length x \<le> 63 \<longrightarrow>
      sint (bin2dec x) = int (be_val x) \<and> 0 \<le> sint (bin2dec x) \<and> sint (bin2dec x) < 2 ^ length x)
   \<and> (64 \<le> m \<longrightarrow> (\<exists>y. length y = m \<and> sint (bin2dec y) < 0))
   \<and> (65 \<le> m \<longrightarrow> (\<exists>y z. length y = m \<and> length z = m \<and> y \<noteq> z \<and> bin2dec y = bin2dec z))"
proof (intro conjI impI)
  assume l: "length x \<le> 63"
  then show v: "sint (bin2dec x) = int (be_val x)" by (rule sint_bin2dec_small)
  then show "0 \<le> sint (bin2dec x)" by simp
  have "int (be_val x) < 2 ^ length x"
    using be_val_less [of x] by (metis of_nat_less_iff of_nat_numeral of_nat_power)
  then show "sint (bin2dec x) < 2 ^ length x" using v by simp
next
  assume m: "64 \<le> m"
  let ?y = "replicate (m - 64) False @ (True # replicate 63 False)"
  have "length ?y = m" using m by simp
  moreover have "sint (bin2dec ?y) < 0"
    unfolding bin2dec_append_False sint_first_bit_of_64 by simp
  ultimately show "\<exists>y. length y = m \<and> sint (bin2dec y) < 0" by blast
next
  assume m: "65 \<le> m"
  let ?y = "True # replicate (m - 1) False" and ?z = "replicate m False"
  have "bin2dec ?y = 0" using m by (intro bin2dec_high_bit_lost) simp
  moreover have "bin2dec ?z = 0" by (simp add: bin2dec_be_val be_val_replicate_False)
  moreover have "length ?y = m" "length ?z = m" using m by simp_all
  moreover have "?y \<noteq> ?z" using m by (cases m) simp_all
  ultimately show "\<exists>y z. length y = m \<and> length z = m \<and> y \<noteq> z \<and> bin2dec y = bin2dec z"
    by metis
qed

theorem bin2dec_int64_range_witness:
  "length [False, True, True] \<le> 63 \<and> sint (bin2dec [False, True, True]) = 3
   \<and> (64::nat) \<le> 64 \<and> (\<exists>y. length y = 64 \<and> sint (bin2dec y) < 0)
   \<and> (65::nat) \<le> 81 \<and> (\<exists>y z. length y = 81 \<and> length z = 81 \<and> y \<noteq> z \<and> bin2dec y = bin2dec z)"
proof -
  have a: "length [False, True, True] \<le> 63" by simp
  have b: "int (be_val [False, True, True]) = 3" by simp
  show ?thesis
    using bin2dec_int64_range [of "[False, True, True]" 64]
      bin2dec_int64_range [of "[False, True, True]" 81] a b
    by simp
qed

section \<open>Properties of the histogram builder\<close>

lemma width_rect: "rect img H W \<Longrightarrow> 0 < H \<Longrightarrow> width img = W"
  by (cases img) (simp_all add: rect_def width_def)

lemma window_in_patches:
  assumes "rect img H W" "i + k \<le> H" "j + k \<le> W"
  shows "window img k k i j \<in> patches_of_size k"
proof -
  have "length (window img k k i j) = k"
    using assms by (simp add: window_def rect_def)
  moreover have "length r = k" if "r \<in> set (window img k k i j)" for r
  proof -
    from that obtain r0 where r0: "r0 \<in> set (take k (drop i img))" and r: "r = take k (drop j r0)"
      by (auto simp: window_def)
    have "r0 \<in> set img" using r0 by (meson in_set_dropD in_set_takeD)
    then have "length r0 = W" using assms(1) by (simp add: rect_def)
    then show ?thesis using r assms(3) by simp
  qed
  ultimately show ?thesis by (auto simp: patches_of_size_def)
qed

lemma in_set_grid:
  "p \<in> set (concat (map (\<lambda>i. map (f i) [0..<b]) [0..<a])) \<Longrightarrow> \<exists>i j. i < a \<and> j < b \<and> p = f i j"
  by fastforce

lemma length_grid: "length (concat (map (\<lambda>i. map (f i) [0..<b]) [0..<a])) = a * b"
  by (simp add: length_concat o_def sum_list_triv)

lemma extract_patches_2d_ok:
  assumes "rect img H W" "0 < k" "k \<le> H" "k \<le> W"
  shows "\<exists>ps. extract_patches_2d img (k, k) = Inr ps
           \<and> length ps = (H - k + 1) * (W - k + 1)
           \<and> set ps \<subseteq> patches_of_size k"
proof -
  let ?ps = "concat (map (\<lambda>i. map (\<lambda>j. window img k k i j) [0..<W - k + 1]) [0..<H - k + 1])"
  have H: "height img = H" using assms(1) by (simp add: rect_def height_def)
  have W: "width img = W" using assms by (intro width_rect [of img H]) simp_all
  have e: "extract_patches_2d img (k, k) = Inr ?ps"
    using assms by (simp add: extract_patches_2d_def H W)
  have l: "length ?ps = (H - k + 1) * (W - k + 1)"
    by (rule length_grid)
  have s: "set ?ps \<subseteq> patches_of_size k"
  proof
    fix p assume "p \<in> set ?ps"
    then obtain i j where "i < H - k + 1" "j < W - k + 1" and p: "p = window img k k i j"
      using in_set_grid [of p "\<lambda>i j. window img k k i j"] by blast
    then have "i + k \<le> H" "j + k \<le> W" using assms by simp_all
    with assms(1) show "p \<in> patches_of_size k" unfolding p by (rule window_in_patches)
  qed
  from e l s show ?thesis by blast
qed

lemma foldr_max_less:
  "(\<forall>i \<in> set ids. i < n) \<Longrightarrow> 0 < n \<Longrightarrow> foldr max ids (0::nat) < n"
  by (induction ids) simp_all

lemma sum_list_count_list_upt:
  assumes "\<forall>i \<in> set ids. i < n"
  shows "sum_list (map (count_list ids) [0..<n]) = length ids"
proof -
  have "sum_list (map (count_list ids) [0..<n]) = sum (count_list ids) {0..<n}"
    by (simp add: interv_sum_list_conv_sum_set_nat)
  also have "\<dots> = length ids"
    using assms by (intro sum_count_set) auto
  finally show ?thesis .
qed

lemma bincount_small_ids:
  assumes "x \<noteq> []" "n < 2 ^ 63" "0 < n"
    and "\<forall>v \<in> set x. 0 \<le> sint v \<and> sint v < int n"
  shows "bincount x n = Inr (map (count_list (map (\<lambda>v. nat (sint v)) x)) [0..<n])"
proof -
  let ?ids = "map (\<lambda>v. nat (sint v)) x"
  have "\<forall>i \<in> set ?ids. i < n" using assms(4) by auto
  then have "foldr max ?ids 0 < n" using assms(3) by (rule foldr_max_less)
  then have "max (foldr max ?ids 0 + 1) n = n" by simp
  moreover have "\<not> (\<exists>v \<in> set x. sint v < 0)" using assms(4) by auto
  moreover have "\<not> 2 ^ 63 \<le> n" using assms(2) by simp
  ultimately show ?thesis using assms(1) by (simp add: bincount_def Let_def)
qed

lemma sq_le_49: "k \<le> 7 \<Longrightarrow> k * k \<le> (49::nat)"
  using mult_le_mono [of k 7 k 7] by simp

lemma sq_ge_64: "7 < k \<Longrightarrow> (64::nat) \<le> k * k"
  using mult_le_mono [of 8 k 8 k] by simp

text \<open>
  What \<^verbatim>\<open>multipoint_histogram\<close> does on an \<open>H \<times> W\<close> image with \<open>0 < k \<le> H\<close>, \<open>k \<le> W\<close>:
  for \<open>k \<le> 7\<close> it returns the counts of the identifiers, which are all below
  \<open>2 ^ (k * k)\<close>; for \<open>k \<ge> 8\<close> the length \<open>2 ^ (k * k)\<close> does not fit the index type.
\<close>

lemma multipoint_histogram_small:
  assumes "rect img H W" "0 < k" "k \<le> H" "k \<le> W" "k \<le> 7"
  shows "\<exists>ids. multipoint_histogram img k = Inr (map (count_list ids) [0..<2 ^ (k * k)])
           \<and> length ids = (H - k + 1) * (W - k + 1)
           \<and> (\<forall>i \<in> set ids. i < 2 ^ (k * k))"
proof -
  obtain ps where e: "extract_patches_2d img (k, k) = Inr ps"
    and l: "length ps = (H - k + 1) * (W - k + 1)"
    and s: "set ps \<subseteq> patches_of_size k"
    using extract_patches_2d_ok [OF assms(1-4)] by blast
  let ?x = "bin2dec_rows (map concat ps)"
  let ?ids = "map (\<lambda>v. nat (sint v)) ?x"
  have kk: "k * k \<le> 63" using sq_le_49 [OF assms(5)] by simp
  have "(2::nat) ^ (k * k) < 2 ^ 63"
    using sq_le_49 [OF assms(5)] by (intro power_strict_increasing) simp_all
  moreover have "?x \<noteq> []" using l by (auto simp: bin2dec_rows_def)
  moreover have "\<forall>v \<in> set ?x. 0 \<le> sint v \<and> sint v < int (2 ^ (k * k))"
  proof
    fix v assume "v \<in> set ?x"
    then obtain p where p: "p \<in> set ps" and v: "v = bin2dec (concat p)"
      by (auto simp: bin2dec_rows_def)
    have "p \<in> patches_of_size k" using p s by blast
    then have "pattern_id p \<in> {0..<2 ^ (k * k)}" using kk by (rule pattern_id_range)
    then show "0 \<le> sint v \<and> sint v < int (2 ^ (k * k))"
      unfolding v pattern_id_def by simp
  qed
  ultimately have b: "bincount ?x (2 ^ (k * k)) = Inr (map (count_list ?ids) [0..<2 ^ (k * k)])"
    and i: "\<forall>i \<in> set ?ids. i < 2 ^ (k * k)"
    by (simp_all add: bincount_small_ids)
  have "multipoint_histogram img k = Inr (map (count_list ?ids) [0..<2 ^ (k * k)])"
    using b by (simp add: multipoint_histogram_def e power2_eq_square)
  moreover have "length ?ids = (H - k + 1) * (W - k + 1)"
    using l by (simp add: bin2dec_rows_def)
  ultimately show ?thesis using i by blast
qed

lemma multipoint_histogram_large:
  assumes "rect img H W" "k \<le> H" "k \<le> W" "7 < k"
  shows "multipoint_histogram img k = Inl MinlengthOverflow"
proof -
  have "0 < k" using assms(4) by simp
  then obtain ps where e: "extract_patches_2d img (k, k) = Inr ps"
    using extract_patches_2d_ok [OF assms(1) _ assms(2,3)] by blast
  have "(2::nat) ^ 63 \<le> 2 ^ (k * k)"
    using sq_ge_64 [OF assms(4)] by (intro power_increasing) simp_all
  then show ?thesis
    by (simp add: multipoint_histogram_def e power2_eq_square bincount_def)
qed

lemma multipoint_histogram_too_big:
  assumes "rect img H W" "H < k \<or> W < k"
  shows "multipoint_histogram img k = Inl InvalidPatchSize"
proof (cases "H < k")
  case True
  then show ?thesis
    using assms(1) by (simp add: multipoint_histogram_def extract_patches_2d_def height_def rect_def)
next
  case False
  then have "W < k" "0 < H" using assms(2) by simp_all
  moreover have "width img = W" using assms(1) \<open>0 < H\<close> by (rule width_rect)
  moreover have "height img = H" using assms(1) by (simp add: height_def rect_def)
  ultimately show ?thesis
    using False by (simp add: multipoint_histogram_def extract_patches_2d_def)
qed


lemmas histogram_eval =
  multipoint_histogram_def extract_patches_2d_def height_def width_def window_def
  bincount_def bin2dec_rows_def bin2dec_Cons bin2dec_Nil upt_rec rect_def

text \<open>
  C4: on an image of height \<open>H\<close> and width \<open>W\<close>, a patch size \<open>k\<close> with \<open>k > H\<close> or
  \<open>k > W\<close> makes \<^verbatim>\<open>multipoint_histogram\<close> fail with the patch-size error of the patch
  extraction; no histogram is returned.
\<close>

theorem multipoint_histogram_invalid_patch_size:
  assumes "rect img H W" and "H < k \<or> W < k"
  shows "multipoint_histogram img k = Inl InvalidPatchSize"
  using assms by (rule multipoint_histogram_too_big)

theorem multipoint_histogram_invalid_patch_size_witness:
  "rect [[True, False], [False, False], [True, True]] 3 2 \<and> ((3::nat) < 3 \<or> (2::nat) < 3)
   \<and> multipoint_histogram [[True, False], [False, False], [True, True]] 3 = Inl InvalidPatchSize"
proof -
  have r: "rect [[True, False], [False, False], [True, True]] 3 2"
    by (simp add: rect_def)
  have k: "(3::nat) < 3 \<or> (2::nat) < 3" by simp
  show ?thesis
    using multipoint_histogram_invalid_patch_size [OF r k] r k by simp
qed

lemma count_list_map_filter:
  "count_list (map f xs) y = length (filter (\<lambda>x. f x = y) xs)"
  by (induction xs) simp_all

text \<open>
  On an \<open>H \<times> W\<close> image with \<open>0 < k \<le> 7\<close>, \<open>k \<le> H\<close>, \<open>k \<le> W\<close>, the histogram holds, at each
  index below \<open>2 ^ (k * k)\<close>, the number of windows with that identifier.
\<close>

lemma multipoint_histogram_patches:
  assumes "rect img H W" "0 < k" "k \<le> H" "k \<le> W" "k \<le> 7"
  shows "\<exists>ps. extract_patches_2d img (k, k) = Inr ps
           \<and> length ps = (H - k + 1) * (W - k + 1)
           \<and> set ps \<subseteq> patches_of_size k
           \<and> multipoint_histogram img k
               = Inr (map (\<lambda>i. length (filter (\<lambda>p. pattern_id p = int i) ps)) [0..<2 ^ (k * k)])"
proof -
  obtain ps where e: "extract_patches_2d img (k, k) = Inr ps"
    and l: "length ps = (H - k + 1) * (W - k + 1)"
    and s: "set ps \<subseteq> patches_of_size k"
    using extract_patches_2d_ok [OF assms(1-4)] by blast
  let ?x = "bin2dec_rows (map concat ps)"
  let ?ids = "map (\<lambda>v. nat (sint v)) ?x"
  have kk: "k * k \<le> 63" using sq_le_49 [OF assms(5)] by simp
  have r: "pattern_id p \<in> {0..<2 ^ (k * k)}" if "p \<in> set ps" for p
    using that s kk by (intro pattern_id_range) auto
  have "(2::nat) ^ (k * k) < 2 ^ 63"
    using sq_le_49 [OF assms(5)] by (intro power_strict_increasing) simp_all
  moreover have "?x \<noteq> []" using l by (auto simp: bin2dec_rows_def)
  moreover have "\<forall>v \<in> set ?x. 0 \<le> sint v \<and> sint v < int (2 ^ (k * k))"
  proof
    fix v assume "v \<in> set ?x"
    then obtain p where p: "p \<in> set ps" and v: "v = bin2dec (concat p)"
      by (auto simp: bin2dec_rows_def)
    show "0 \<le> sint v \<and> sint v < int (2 ^ (k * k))"
      using r [OF p] unfolding v pattern_id_def by simp
  qed
  ultimately have b: "bincount ?x (2 ^ (k * k)) = Inr (map (count_list ?ids) [0..<2 ^ (k * k)])"
    by (simp add: bincount_small_ids)
  have ids: "?ids = map (\<lambda>p. nat (pattern_id p)) ps"
    by (simp add: bin2dec_rows_def pattern_id_def)
  have c: "count_list ?ids i = length (filter (\<lambda>p. pattern_id p = int i) ps)" for i
  proof -
    have "filter (\<lambda>p. nat (pattern_id p) = i) ps = filter (\<lambda>p. pattern_id p = int i) ps"
    proof (rule filter_cong [OF refl])
      fix p assume "p \<in> set ps"
      then have "0 \<le> pattern_id p" using r by simp
      then show "(nat (pattern_id p) = i) = (pattern_id p = int i)" by auto
    qed
    then show ?thesis unfolding ids by (simp add: count_list_map_filter)
  qed
  have "multipoint_histogram img k = Inr (map (count_list ?ids) [0..<2 ^ (k * k)])"
    using b by (simp add: multipoint_histogram_def e power2_eq_square)
  then have "multipoint_histogram img k
      = Inr (map (\<lambda>i. length (filter (\<lambda>p. pattern_id p = int i) ps)) [0..<2 ^ (k * k)])"
    by (simp add: c)
  with e l s show ?thesis by blast
qed

text \<open>
  C7, as amended: on an \<open>H \<times> W\<close> binary image with a patch size \<open>0 < k \<le> 7\<close>, \<open>k \<le> H\<close>,
  \<open>k \<le> W\<close>, \<^verbatim>\<open>multipoint_histogram\<close> returns a histogram of exactly \<open>2 ^ (k * k)\<close>
  entries, whichever identifiers occur in the image: entry \<open>i\<close> is the number of
  windows whose identifier is \<open>i\<close>, so an identifier that does not occur has the count
  0, also beyond the largest identifier that occurs.
\<close>

theorem multipoint_histogram_length:
  assumes "rect img H W" and "0 < k" and "k \<le> 7" and "k \<le> H" and "k \<le> W"
  shows "\<exists>ps h. extract_patches_2d img (k, k) = Inr ps \<and> multipoint_histogram img k = Inr h
           \<and> length h = 2 ^ (k * k)
           \<and> (\<forall>i < 2 ^ (k * k). h ! i = length (filter (\<lambda>p. pattern_id p = int i) ps))
           \<and> (\<forall>i < 2 ^ (k * k). (\<forall>p \<in> set ps. pattern_id p \<noteq> int i) \<longrightarrow> h ! i = 0)"
proof -
  obtain ps where e: "extract_patches_2d img (k, k) = Inr ps"
    and m: "multipoint_histogram img k
        = Inr (map (\<lambda>i. length (filter (\<lambda>p. pattern_id p = int i) ps)) [0..<2 ^ (k * k)])"
    using multipoint_histogram_patches [OF assms(1,2,4,5,3)] by blast
  let ?h = "map (\<lambda>i. length (filter (\<lambda>p. pattern_id p = int i) ps)) [0..<2 ^ (k * k)]"
  have "length ?h = 2 ^ (k * k)" by simp
  moreover have n: "\<forall>i < 2 ^ (k * k). ?h ! i = length (filter (\<lambda>p. pattern_id p = int i) ps)"
    by simp
  moreover have "\<forall>i < 2 ^ (k * k). (\<forall>p \<in> set ps. pattern_id p \<noteq> int i) \<longrightarrow> ?h ! i = 0"
    by simp
  ultimately show ?thesis using e m by blast
qed

theorem multipoint_histogram_length_witness:
  "rect [[True, False, True], [False, False, True]] 2 3 \<and> (0::nat) < 2 \<and> (2::nat) \<le> 7
   \<and> (2::nat) \<le> 2 \<and> (2::nat) \<le> 3
   \<and> extract_patches_2d [[True, False, True], [False, False, True]] (2, 2)
       = Inr [[[True, False], [False, False]], [[False, True], [False, True]]]
   \<and> pattern_id [[True, False], [False, False]] = 8
   \<and> pattern_id [[False, True], [False, True]] = 5
   \<and> multipoint_histogram [[True, False, True], [False, False, True]] 2
       = Inr [0, 0, 0, 0, 0, 1, 0, 0, 1, 0, 0, 0, 0, 0, 0, 0]
   \<and> length [0, 0, 0, 0, 0, 1, 0, 0, 1, 0, 0, 0, 0, 0, 0, 0 :: nat] = 2 ^ (2 * 2)
   \<and> (\<exists>ps h. extract_patches_2d [[True, False, True], [False, False, True]] (2, 2) = Inr ps
          \<and> multipoint_histogram [[True, False, True], [False, False, True]] 2 = Inr h
          \<and> (15::nat) < 2 ^ (2 * 2) \<and> (\<forall>p \<in> set ps. pattern_id p \<noteq> int 15) \<and> h ! 15 = 0)"
proof -
  have r: "rect [[True, False, True], [False, False, True]] 2 3"
    by (simp add: rect_def)
  have x: "extract_patches_2d [[True, False, True], [False, False, True]] (2, 2)
       = Inr [[[True, False], [False, False]], [[False, True], [False, True]]]"
    by (simp add: extract_patches_2d_def height_def width_def window_def upt_rec)
  have p: "pattern_id [[True, False], [False, False]] = 8"
      "pattern_id [[False, True], [False, True]] = 5"
    by (simp_all add: pattern_id_def bin2dec_Cons bin2dec_Nil)
  have e: "multipoint_histogram [[True, False, True], [False, False, True]] 2
       = Inr [0, 0, 0, 0, 0, 1, 0, 0, 1, 0, 0, 0, 0, 0, 0, 0]"
    by (simp add: histogram_eval)
  show ?thesis
    using multipoint_histogram_length [OF r, of 2] r x p e by simp
qed

text \<open>
  C7 as stated fails at \<open>k = 8\<close>: on the \<open>8 \<times> 8\<close> image of zeros, a valid patch size,
  \<^verbatim>\<open>np.bincount\<close> rejects \<^verbatim>\<open>minlength = 2**64\<close> and no histogram is returned.
\<close>

theorem multipoint_histogram_length_counterexample:
  "rect (replicate 8 (replicate 8 False)) 8 8
   \<and> multipoint_histogram (replicate 8 (replicate 8 False)) 8 = Inl MinlengthOverflow"
proof -
  have r: "rect (replicate 8 (replicate 8 False)) 8 8"
    by (simp add: rect_def)
  then have "multipoint_histogram (replicate 8 (replicate 8 False)) 8 = Inl MinlengthOverflow"
    by (rule multipoint_histogram_large) simp_all
  with r show ?thesis by simp
qed

text \<open>
  C8, as amended: on an \<open>H \<times> W\<close> binary image with \<open>0 < k \<le> 7\<close>, \<open>k \<le> H\<close>, \<open>k \<le> W\<close>,
  \<^verbatim>\<open>multipoint_histogram\<close> returns a histogram whose entries sum to
  \<open>(H - k + 1) * (W - k + 1)\<close>, the number of window positions at stride 1.
\<close>

theorem multipoint_histogram_total:
  assumes "rect img H W" and "0 < k" and "k \<le> 7" and "k \<le> H" and "k \<le> W"
  shows "\<exists>h. multipoint_histogram img k = Inr h \<and> sum_list h = (H - k + 1) * (W - k + 1)"
proof -
  obtain ids where e: "multipoint_histogram img k = Inr (map (count_list ids) [0..<2 ^ (k * k)])"
    and l: "length ids = (H - k + 1) * (W - k + 1)"
    and b: "\<forall>i \<in> set ids. i < 2 ^ (k * k)"
    using multipoint_histogram_small [OF assms(1,2,4,5,3)] by blast
  have "sum_list (map (count_list ids) [0..<2 ^ (k * k)]) = (H - k + 1) * (W - k + 1)"
    using sum_list_count_list_upt [OF b] l by simp
  with e show ?thesis by blast
qed

theorem multipoint_histogram_total_witness:
  "rect (replicate 4 (replicate 4 False)) 4 4 \<and> (0::nat) < 2 \<and> (2::nat) \<le> 7 \<and> (2::nat) \<le> 4
   \<and> multipoint_histogram (replicate 4 (replicate 4 False)) 2 = Inr (9 # replicate 15 0)
   \<and> sum_list (9 # replicate 15 0) = (4 - 2 + 1) * (4 - 2 + (1::nat))
   \<and> (\<exists>h. multipoint_histogram (replicate 4 (replicate 4 False)) 2 = Inr h
          \<and> sum_list h = (4 - 2 + 1) * (4 - 2 + 1))"
proof -
  have r: "rect (replicate 4 (replicate 4 False)) 4 4"
    by (simp add: rect_def)
  have i: "replicate 4 (replicate 4 False)
      = [[False, False, False, False], [False, False, False, False],
         [False, False, False, False], [False, False, False, False]]"
    by (simp add: numeral_eq_Suc)
  have e: "multipoint_histogram (replicate 4 (replicate 4 False)) 2 = Inr (9 # replicate 15 0)"
    unfolding i by (simp add: histogram_eval) (simp add: numeral_eq_Suc)
  show ?thesis
    using multipoint_histogram_total [OF r, of 2] r e by simp
qed

text \<open>
  C8 as stated fails at \<open>k = 8\<close>: on the \<open>8 \<times> 9\<close> image of zeros, with \<open>k \<le> H\<close> and
  \<open>k \<le> W\<close>, \<^verbatim>\<open>np.bincount\<close> rejects \<^verbatim>\<open>minlength = 2**64\<close>; there is no histogram whose
  entries could sum to the two window positions.
\<close>

theorem multipoint_histogram_total_counterexample:
  "rect (replicate 8 (replicate 9 False)) 8 9 \<and> (8::nat) \<le> 8 \<and> (8::nat) \<le> 9
   \<and> multipoint_histogram (replicate 8 (replicate 9 False)) 8 = Inl MinlengthOverflow"
proof -
  have r: "rect (replicate 8 (replicate 9 False)) 8 9"
    by (simp add: rect_def)
  then have "multipoint_histogram (replicate 8 (replicate 9 False)) 8 = Inl MinlengthOverflow"
    by (rule multipoint_histogram_large) simp_all
  with r show ?thesis by simp
qed

section \<open>Properties of the divergence\<close>

lemma fsum_map_Fin: "fsum (map Fin rs) = Fin (sum_list rs)"
  by (induction rs) simp_all

lemma sum_list_divide_const:
  "sum_list (map (\<lambda>x. real x / c) p) = real (sum_list p) / c"
  by (induction p) (simp_all add: add_divide_distrib)

lemma fdiv_by_pos:
  "0 < s \<Longrightarrow> map (\<lambda>x. fdiv (Fin (real x)) (Fin (real s))) p = map Fin (map (\<lambda>x. real x / real s) p)"
  by simp

lemma normalize_pos:
  assumes "0 < sum_list p"
  shows "normalized p = map Fin (normalized_ref p)"
  unfolding normalized_def normalized_ref_def using assms by (rule fdiv_by_pos)

lemma real_div_self_pos: "0 < s \<Longrightarrow> real s / real s = 1"
  by simp

lemma sum_list_normalized_ref:
  assumes "0 < sum_list p"
  shows "sum_list (normalized_ref p) = 1"
  unfolding normalized_ref_def sum_list_divide_const using assms by (rule real_div_self_pos)

lemma normalize_ref_nonneg: "x \<in> set (normalized_ref p) \<Longrightarrow> 0 \<le> x"
  by (auto simp: normalized_ref_def)

lemma length_normalized_ref: "length (normalized_ref p) = length p"
  by (simp add: normalized_ref_def)

lemma length_mixture_ref: "length (mixture_ref a b) = min (length a) (length b)"
  by (simp add: mixture_ref_def)

lemma mixture_ref_Cons: "mixture_ref (x # a) (y # b) = (x + y) / 2 # mixture_ref a b"
  by (simp add: mixture_ref_def)

lemma mixture_ref_Nil: "mixture_ref [] [] = []"
  by (simp add: mixture_ref_def)

lemma mixture_ref_commute: "mixture_ref a b = mixture_ref b a"
proof (induction a arbitrary: b)
  case Nil
  then show ?case by (simp add: mixture_ref_def)
next
  case (Cons x a)
  then show ?case by (cases b) (simp_all add: mixture_ref_def add.commute)
qed

lemma sum_list_mixture_ref:
  "length a = length b \<Longrightarrow> sum_list (mixture_ref a b) = (sum_list a + sum_list b) / 2"
  by (induction a b rule: list_induct2) (simp_all add: mixture_ref_Nil mixture_ref_Cons add_divide_distrib)

lemma array_add_Fin:
  assumes "length a = length b"
  shows "array_add (map Fin a) (map Fin b) = Inr (map Fin (map2 (+) a b))"
  using assms
  by (simp add: array_add_def zip_map_map map_eq_conv split_def zip_map1 zip_map2)

lemma half_mixture:
  "map (fmul (Fin (1/2))) (map Fin (map2 (+) a b)) = map Fin (mixture_ref a b)"
  by (simp add: mixture_ref_def split_def)

lemma dominated_Nil: "dominated [] []"
  by (simp add: dominated_def)

lemma dominated_Cons: "dominated (x # a) (y # m) \<longleftrightarrow> 0 \<le> x \<and> x \<le> 2 * y \<and> dominated a m"
  by (auto simp: dominated_def)

lemma dominated_mixture_left:
  assumes "length a = length b" "\<forall>x \<in> set a. 0 \<le> x" "\<forall>x \<in> set b. 0 \<le> x"
  shows "dominated a (mixture_ref a b)"
  using assms
  by (induction a b rule: list_induct2)
     (simp_all add: mixture_ref_Nil mixture_ref_Cons dominated_Nil dominated_Cons)

lemma dominated_mixture_right:
  assumes "length a = length b" "\<forall>x \<in> set a. 0 \<le> x" "\<forall>x \<in> set b. 0 \<le> x"
  shows "dominated b (mixture_ref a b)"
  using dominated_mixture_left [of b a] assms by (simp add: mixture_ref_commute)

lemma rel_entr_Fin:
  assumes "0 \<le> x" "x \<le> 2 * y"
  shows "rel_entr (Fin x) (Fin y) = Fin (if x = 0 then 0 else x * ln (x / y))"
proof (cases "x = 0")
  case True
  then show ?thesis using assms by (simp add: rel_entr_def)
next
  case False
  then have "0 < x" "0 < y" using assms by simp_all
  then show ?thesis by (simp add: rel_entr_def)
qed

lemma rel_entr_dominated:
  assumes "dominated a m"
  shows "map2 rel_entr (map Fin a) (map Fin m)
         = map Fin (map2 (\<lambda>x y. if x = 0 then 0 else x * ln (x / y)) a m)"
proof -
  have "length a = length m" using assms by (simp add: dominated_def)
  then show ?thesis using assms
    by (induction a m rule: list_induct2) (simp_all add: dominated_Cons rel_entr_Fin)
qed

text \<open>
  On two normalised lists, the second dominating the first, \<^verbatim>\<open>entropy\<close> is the
  Kullback-Leibler divergence: its own normalisation divides by 1.
\<close>

lemma entropy_KL_ref:
  assumes "dominated a m" "sum_list a = 1" "sum_list m = 1"
  shows "entropy (map Fin a) (map Fin m) = Inr (Fin (KL_ref a m))"
proof -
  have l: "length a = length m" using assms(1) by (simp add: dominated_def)
  have one: "map (\<lambda>x. fdiv (fmul (Fin 1) x) (Fin 1)) (map Fin xs) = map Fin xs" for xs
    by simp
  have v: "map2 rel_entr (map Fin a) (map Fin m)
      = map Fin (map2 (\<lambda>x y. if x = 0 then 0 else x * ln (x / y)) a m)"
    using assms(1) by (rule rel_entr_dominated)
  have "entropy (map Fin a) (map Fin m)
      = Inr (fsum (map2 rel_entr (map Fin a) (map Fin m)))"
    unfolding entropy_def Let_def fsum_map_Fin assms(2) assms(3) one
    using l by simp
  then show ?thesis
    unfolding v fsum_map_Fin KL_ref_def .
qed

lemma jsd_value:
  assumes "length p = length q" "0 < sum_list p" "0 < sum_list q"
  shows "jsd p q = Inr (Fin (jsd_ref p q))"
proof -
  let ?a = "normalized_ref p" and ?b = "normalized_ref q"
  let ?m = "mixture_ref ?a ?b"
  have l: "length ?a = length ?b" using assms(1) by (simp add: length_normalized_ref)
  have nn: "\<forall>x \<in> set ?a. 0 \<le> x" "\<forall>x \<in> set ?b. 0 \<le> x"
    by (simp_all add: normalize_ref_nonneg)
  have sa: "sum_list ?a = 1" and sb: "sum_list ?b = 1"
    using assms by (simp_all add: sum_list_normalized_ref)
  have sm: "sum_list ?m = 1"
    using sum_list_mixture_ref [OF l] sa sb by simp
  have e1: "entropy (map Fin ?a) (map Fin ?m) = Inr (Fin (KL_ref ?a ?m))"
    using dominated_mixture_left [OF l nn] sa sm by (rule entropy_KL_ref)
  have e2: "entropy (map Fin ?b) (map Fin ?m) = Inr (Fin (KL_ref ?b ?m))"
    using dominated_mixture_right [OF l nn] sb sm by (rule entropy_KL_ref)
  have "jsd p q = Inr (fmul (Fin (1/2)) (fadd (Fin (KL_ref ?a ?m)) (Fin (KL_ref ?b ?m))))"
    unfolding jsd_def Let_def normalize_pos [OF assms(2)] normalize_pos [OF assms(3)]
      array_add_Fin [OF l]
    by (simp only: sum.case half_mixture e1 e2)
  then show ?thesis by (simp add: jsd_ref_def Let_def algebra_simps)
qed

lemma jsd_ref_commute: "jsd_ref p q = jsd_ref q p"
  by (simp add: jsd_ref_def Let_def mixture_ref_commute [of "normalized_ref p"])

lemmas jsd_eval =
  jsd_def normalized_def array_add_def entropy_def rel_entr_def inf_times_def

text \<open>
  C6: for two histograms of equal length, each with a positive sum, \<^verbatim>\<open>jsd\<close> is
  symmetric.
\<close>

theorem jsd_symmetric:
  assumes "length a = length b" and "0 < sum_list a" and "0 < sum_list b"
  shows "jsd a b = jsd b a"
proof -
  have "jsd a b = Inr (Fin (jsd_ref a b))" using assms by (rule jsd_value)
  moreover have "jsd b a = Inr (Fin (jsd_ref b a))" using assms by (intro jsd_value) simp_all
  ultimately show ?thesis by (simp add: jsd_ref_commute [of a b])
qed

theorem jsd_symmetric_witness:
  "length [3, 0, 1 :: nat] = length [0, 2, 2 :: nat] \<and> 0 < sum_list [3, 0, 1 :: nat]
   \<and> 0 < sum_list [0, 2, 2 :: nat] \<and> jsd [3, 0, 1] [0, 2, 2] = jsd [0, 2, 2] [3, 0, 1]"
  using jsd_symmetric [of "[3, 0, 1]" "[0, 2, 2]"] by simp

lemma fadd_NaN_right: "fadd x NaN = NaN"
  by (cases x) simp_all

lemma rel_entr_NaN_right: "rel_entr x NaN = NaN"
  by (simp add: rel_entr_def)

lemma fsum_replicate_NaN: "0 < n \<Longrightarrow> fsum (replicate n NaN) = NaN"
  by (cases n) simp_all

lemma map2_replicate_right:
  "length xs = n \<Longrightarrow> map2 f xs (replicate n c) = map (\<lambda>x. f x c) xs"
  by (induction xs arbitrary: n) auto

lemma map2_replicate_left:
  "length ys = n \<Longrightarrow> map2 f (replicate n c) ys = map (f c) ys"
  by (induction ys arbitrary: n) auto

lemma map_const_replicate: "map (\<lambda>x. c) xs = replicate (length xs) c"
  by (induction xs) simp_all

lemma normalize_all_zero:
  "\<forall>x \<in> set p. x = 0 \<Longrightarrow> map (\<lambda>x. fdiv (Fin (real x)) (Fin 0)) p = replicate (length p) NaN"
  by (induction p) simp_all

lemma normalize_zero_sum:
  assumes "sum_list p = 0"
  shows "normalized p = replicate (length p) NaN"
proof -
  have "\<forall>x \<in> set p. x = 0" using assms by simp
  then have "map (\<lambda>x. fdiv (Fin (real x)) (Fin 0)) p = replicate (length p) NaN"
    by (rule normalize_all_zero)
  then show ?thesis
    by (simp add: normalized_def assms)
qed

lemma map_fadd_NaN: "map (fadd NaN) xs = replicate (length xs) NaN"
  by (induction xs) simp_all

lemma length_normalized: "length (normalized p) = length p"
  by (simp add: normalized_def)

lemma entropy_NaN_mixture:
  assumes "length pk = n" "0 < n"
  shows "entropy pk (replicate n NaN) = Inr NaN"
proof -
  have "map (\<lambda>x. fdiv (fmul (Fin 1) x) (fsum (replicate n NaN))) (replicate n NaN)
      = replicate n NaN"
    by simp
  then show ?thesis
    using assms
    by (simp add: entropy_def map2_replicate_right rel_entr_NaN_right map_const_replicate
        fsum_replicate_NaN)
qed

lemma jsd_NaN_mixture:
  assumes "length p = length q" "p \<noteq> []"
    and "array_add (normalized p) (normalized q) = Inr (replicate (length p) NaN)"
  shows "jsd p q = Inr NaN"
proof -
  have n: "0 < length p" using assms(2) by simp
  have m: "map (fmul (Fin (1/2))) (replicate (length p) NaN) = replicate (length p) NaN"
    by simp
  have e1: "entropy (normalized p) (replicate (length p) NaN) = Inr NaN"
    using n by (intro entropy_NaN_mixture) (simp_all add: length_normalized)
  have e2: "entropy (normalized q) (replicate (length p) NaN) = Inr NaN"
    using n assms(1) by (intro entropy_NaN_mixture) (simp_all add: length_normalized)
  show ?thesis
    unfolding jsd_def Let_def assms(3) by (simp only: sum.case m e1 e2 fadd.simps fmul.simps)
qed

lemma jsd_degenerate:
  assumes "length p = length q" "p \<noteq> []" "sum_list p = 0 \<or> sum_list q = 0"
  shows "jsd p q = Inr NaN"
proof -
  have l: "length (normalized p) = length (normalized q)"
    using assms(1) by (simp add: length_normalized)
  have "map2 fadd (normalized p) (normalized q) = replicate (length p) NaN"
    using assms(3)
  proof
    assume "sum_list p = 0"
    then show ?thesis
      using assms(1)
      by (simp add: normalize_zero_sum map2_replicate_left length_normalized map_fadd_NaN)
  next
    assume "sum_list q = 0"
    then show ?thesis
      using assms(1)
      by (simp add: normalize_zero_sum map2_replicate_right length_normalized fadd_NaN_right
          map_const_replicate)
  qed
  then have "array_add (normalized p) (normalized q) = Inr (replicate (length p) NaN)"
    using l by (simp add: array_add_def)
  with assms(1,2) show ?thesis by (rule jsd_NaN_mixture)
qed

text \<open>
  C2, as amended: for two non-empty histograms of equal length of which at least one
  sums to zero, \<^verbatim>\<open>jsd\<close> does not fail: the division by the zero sum gives \<^verbatim>\<open>nan\<close>,
  and \<^verbatim>\<open>nan\<close> is the value returned.
\<close>

theorem jsd_zero_sum_returns_nan:
  assumes "length p = length q" and "p \<noteq> []" and "sum_list p = 0 \<or> sum_list q = 0"
  shows "jsd p q = Inr NaN"
  using assms by (rule jsd_degenerate)

theorem jsd_zero_sum_returns_nan_witness:
  "length [2, 1 :: nat] = length [0, 0 :: nat] \<and> [2, 1 :: nat] \<noteq> []
   \<and> (sum_list [2, 1 :: nat] = 0 \<or> sum_list [0, 0 :: nat] = 0)
   \<and> jsd [2, 1] [0, 0] = Inr NaN"
  using jsd_zero_sum_returns_nan [of "[2, 1]" "[0, 0]"] by simp

text \<open>
  C2 as stated fails: on the histograms \<open>[0, 0]\<close> and \<open>[1, 1]\<close>, the first of sum
  zero, \<^verbatim>\<open>jsd\<close> returns the value \<^verbatim>\<open>nan\<close>; no error is raised.
\<close>

theorem jsd_zero_sum_counterexample:
  "sum_list [0, 0 :: nat] = 0 \<and> jsd [0, 0] [1, 1] = Inr NaN \<and> \<not> isl (jsd [0, 0] [1, 1])"
  by (simp add: jsd_eval)

section \<open>Properties of the scores\<close>

lemma multipoint_histogram_shape:
  assumes "rect img H W" "0 < k" "k \<le> H" "k \<le> W" "k \<le> 7"
  shows "\<exists>h. multipoint_histogram img k = Inr h \<and> length h = 2 ^ (k * k) \<and> 0 < sum_list h"
proof -
  obtain ids where e: "multipoint_histogram img k = Inr (map (count_list ids) [0..<2 ^ (k * k)])"
    and l: "length ids = (H - k + 1) * (W - k + 1)"
    and b: "\<forall>i \<in> set ids. i < 2 ^ (k * k)"
    using multipoint_histogram_small [OF assms] by blast
  have "sum_list (map (count_list ids) [0..<2 ^ (k * k)]) = (H - k + 1) * (W - k + 1)"
    using sum_list_count_list_upt [OF b] l by simp
  then have "0 < sum_list (map (count_list ids) [0..<2 ^ (k * k)])" by simp
  with e show ?thesis by simp
qed

lemma mean_Nil: "mean [] = NaN"
  by (simp add: mean_def)

lemma mean_single_Fin: "mean [Fin d] = Fin d"
  by (simp add: mean_def)

lemma pdist_single: "pdist [h] f = Inr []"
  by (simp add: pdist_def)

lemma pdist_Nil: "pdist [] f = Inl NotTwoDimensional"
  by (simp add: pdist_def)

lemma anodi_Nil: "\<exists>e. anodi img0 [] k = Inl e"
  by (simp add: anodi_def pdist_Nil split: sum.split)

lemma anodi_Nil_valid:
  assumes "multipoint_histogram img0 k = Inr h0"
  shows "anodi img0 [] k = Inl NotTwoDimensional"
  by (simp add: anodi_def assms pdist_Nil)

lemma anodi_single:
  assumes "multipoint_histogram img0 k = Inr h0" "multipoint_histogram img k = Inr h"
    and "jsd h0 h = Inr (Fin d)"
  shows "anodi img0 [img] k = Inr (Fin d, NaN)"
  by (simp add: anodi_def assms pdist_single mean_Nil mean_single_Fin)

text \<open>
  C3, as amended: with an empty candidate list \<^verbatim>\<open>anodi\<close> fails, with the error of
  \<^verbatim>\<open>pdist\<close> on an empty array when the reference histogram can be built. With a
  single candidate it does not fail: for a reference and a candidate on which the
  histograms can be built (patch size \<open>0 < k \<le> 7\<close> within both images) it returns
  the pair of the divergence between the two histograms and \<^verbatim>\<open>nan\<close>, the mean of no
  pairwise distance.
\<close>

theorem anodi_few_candidates:
  "(\<exists>e. anodi img0 [] k = Inl e)
   \<and> (rect img0 H0 W0 \<and> rect img H W \<and> 0 < k \<and> k \<le> 7
        \<and> k \<le> H0 \<and> k \<le> W0 \<and> k \<le> H \<and> k \<le> W \<longrightarrow>
       anodi img0 [] k = Inl NotTwoDimensional
       \<and> (\<exists>h0 h. multipoint_histogram img0 k = Inr h0 \<and> multipoint_histogram img k = Inr h
              \<and> jsd h0 h = Inr (Fin (jsd_ref h0 h))
              \<and> anodi img0 [img] k = Inr (Fin (jsd_ref h0 h), NaN)))"
proof (intro conjI impI)
  show "\<exists>e. anodi img0 [] k = Inl e" by (rule anodi_Nil)
next
  assume a: "rect img0 H0 W0 \<and> rect img H W \<and> 0 < k \<and> k \<le> 7
        \<and> k \<le> H0 \<and> k \<le> W0 \<and> k \<le> H \<and> k \<le> W"
  obtain h0 where h0: "multipoint_histogram img0 k = Inr h0" "length h0 = 2 ^ (k * k)"
      "0 < sum_list h0"
    using multipoint_histogram_shape [of img0 H0 W0 k] a by blast
  obtain h where h: "multipoint_histogram img k = Inr h" "length h = 2 ^ (k * k)"
      "0 < sum_list h"
    using multipoint_histogram_shape [of img H W k] a by blast
  show "anodi img0 [] k = Inl NotTwoDimensional"
    using h0(1) by (rule anodi_Nil_valid)
  have j: "jsd h0 h = Inr (Fin (jsd_ref h0 h))"
    using h0 h by (intro jsd_value) simp_all
  with h0(1) h(1) have "anodi img0 [img] k = Inr (Fin (jsd_ref h0 h), NaN)"
    by (rule anodi_single)
  with h0(1) h(1) j
  show "\<exists>h0 h. multipoint_histogram img0 k = Inr h0 \<and> multipoint_histogram img k = Inr h
              \<and> jsd h0 h = Inr (Fin (jsd_ref h0 h))
              \<and> anodi img0 [img] k = Inr (Fin (jsd_ref h0 h), NaN)"
    by blast
qed

theorem anodi_few_candidates_witness:
  "rect [[True, False]] 1 2 \<and> rect [[False, False], [False, False]] 2 2
   \<and> (\<exists>e. anodi [[True, False]] [] 1 = Inl e)
   \<and> anodi [[True, False]] [] 1 = Inl NotTwoDimensional
   \<and> multipoint_histogram [[True, False]] 1 = Inr [1, 1]
   \<and> multipoint_histogram [[False, False], [False, False]] 1 = Inr [4, 0]
   \<and> jsd [1, 1] [4, 0] = Inr (Fin (jsd_ref [1, 1] [4, 0]))
   \<and> anodi [[True, False]] [[[False, False], [False, False]]] 1
       = Inr (Fin (jsd_ref [1, 1] [4, 0]), NaN)"
proof -
  have r: "rect [[True, False]] 1 2" "rect [[False, False], [False, False]] 2 2"
    by (simp_all add: rect_def)
  have e: "multipoint_histogram [[True, False]] 1 = Inr [1, 1]"
      "multipoint_histogram [[False, False], [False, False]] 1 = Inr [4, 0]"
    by (simp_all add: histogram_eval)
  show ?thesis
    using anodi_few_candidates [of "[[True, False]]" 1 1 2 "[[False, False], [False, False]]" 2 2]
      r e by simp
qed

text \<open>
  C3 as stated fails on a single candidate: with a \<open>2 \<times> 2\<close> reference, one
  \<open>2 \<times> 2\<close> candidate and patch size 1 (both histograms are \<open>[2, 2]\<close>), \<^verbatim>\<open>anodi\<close>
  returns the pair \<open>(0, nan)\<close>.
\<close>

theorem anodi_single_candidate_counterexample:
  "length [[[True, True], [False, False]]] < 2
   \<and> multipoint_histogram [[True, False], [False, True]] 1 = Inr [2, 2]
   \<and> multipoint_histogram [[True, True], [False, False]] 1 = Inr [2, 2]
   \<and> anodi [[True, False], [False, True]] [[[True, True], [False, False]]] 1
       = Inr (Fin 0, NaN)"
proof -
  have h: "multipoint_histogram [[True, False], [False, True]] 1 = Inr [2, 2]"
      "multipoint_histogram [[True, True], [False, False]] 1 = Inr [2, 2]"
    by (simp_all add: histogram_eval)
  have j: "jsd [2, 2] [2, 2] = Inr (Fin 0)"
    by (simp add: jsd_eval)
  show ?thesis
    using h anodi_single [OF h j] by simp
qed

end
